theory Spec2Isabelle
  imports Main "HOL-Library.Word" "HOL-Library.Char_ord" "HOL-Library.List_Lexorder"
begin

section \<open>Data model of main.cpp\<close>

text \<open>
  \<^verbatim>\<open>struct Extension_info { std::uintmax_t num_files, total_size; };\<close>
  Both fields are 64-bit unsigned integers: \<open>+\<close> on \<open>64 word\<close> wraps as
  \<open>std::uintmax_t\<close> does.
\<close>

record Extension_info =
  num_files :: "64 word"
  total_size :: "64 word"

text \<open>The value-initialised struct that \<^verbatim>\<open>std::map::operator[]\<close> inserts for a new key.\<close>

definition zero_info :: Extension_info where
  "zero_info = \<lparr>num_files = 0, total_size = 0\<rparr>"

text \<open>
  \<^verbatim>\<open>using map_type = std::map<std::string, Extension_info>;\<close>
  A \<open>std::map\<close> is traversed in ascending key order, and \<open>std::string\<close> compares
  bytewise and lexicographically, which is the order of \<open>string\<close> here. The map is its
  sequence of entries in traversal order; \<open>map_inv\<close> is the representation invariant
  (keys strictly ascending, hence unique).
\<close>

type_synonym map_type = "(string \<times> Extension_info) list"

definition map_inv :: "map_type \<Rightarrow> bool" where
  "map_inv m = sorted_wrt (<) (map fst m)"

definition keys_of :: "map_type \<Rightarrow> string set" where
  "keys_of m = fst ` set m"

text \<open>
  \<^verbatim>\<open>m[k]\<close> followed by an update of the referenced struct: \<open>at_key k f m\<close> finds the
  entry of \<open>k\<close>, inserting a value-initialised one at its sorted position when the key is
  absent, and replaces the struct \<open>v\<close> found there by \<open>f v\<close>.
\<close>

fun at_key :: "string \<Rightarrow> (Extension_info \<Rightarrow> Extension_info) \<Rightarrow> map_type \<Rightarrow> map_type" where
  "at_key k f [] = [(k, f zero_info)]"
| "at_key k f ((k', v) # m) =
     (if k = k' then (k', f v) # m
      else if k < k' then (k, f zero_info) # (k', v) # m
      else (k', v) # at_key k f m)"

text \<open>Reading an entry that is known to exist, with the value-initialised struct otherwise.\<close>

definition info_at :: "map_type \<Rightarrow> string \<Rightarrow> Extension_info" where
  "info_at m k = (case map_of m k of None \<Rightarrow> zero_info | Some v \<Rightarrow> v)"

section \<open>The merge reducer\<close>

text \<open>
  \<^verbatim>\<open>
  void process_map(const map_type& partial_map, map_type& global_map,
                   std::atomic<std::uintmax_t>& directory_counter) {
      for (const auto& [dir, info] : partial_map) {
          global_map[dir].num_files += info.num_files;
          global_map[dir].total_size += info.total_size;
      }
      directory_counter += partial_map.size();
  }
  \<close>
  The loop is \<open>merge_entries\<close>, over the entries of the partial map in traversal order;
  the two mutated arguments are passed in and returned as a pair.
\<close>

fun merge_entries :: "map_type \<Rightarrow> map_type \<Rightarrow> map_type" where
  "merge_entries [] global_map = global_map"
| "merge_entries ((dir, info) # rest) global_map =
     merge_entries rest
       (at_key dir (\<lambda>g. g\<lparr>total_size := total_size g + total_size info\<rparr>)
         (at_key dir (\<lambda>g. g\<lparr>num_files := num_files g + num_files info\<rparr>) global_map))"

definition process_map :: "map_type \<Rightarrow> map_type \<times> 64 word \<Rightarrow> map_type \<times> 64 word" where
  "process_map partial_map st =
     (merge_entries partial_map (fst st), snd st + of_nat (length partial_map))"

text \<open>
  \<^verbatim>\<open>for (auto& future : futures) process_map(future.get(), processed_data, directory_counter);\<close>
  over the partial maps in the order of the futures.
\<close>

fun merge_all :: "map_type list \<Rightarrow> map_type \<times> 64 word \<Rightarrow> map_type \<times> 64 word" where
  "merge_all [] st = st"
| "merge_all (partial_map # rest) st = merge_all rest (process_map partial_map st)"

section \<open>The file system as the chunk aggregator observes it\<close>

text \<open>
  A path is a \<open>string\<close> in generic (POSIX) format. \<^verbatim>\<open>pth.filename()\<close> is the last
  component: what follows the last \<open>/\<close> (empty for a path that ends in \<open>/\<close>).
\<close>

definition filename :: "string \<Rightarrow> string" where
  "filename pth = rev (takeWhile (\<lambda>c. c \<noteq> CHR ''/'') (rev pth))"

text \<open>
  What one step of \<^verbatim>\<open>for (const auto& entry : fs::directory_iterator{pth})\<close> with the
  loop body of lines 46 to 49 meets:
  \<^item> \<open>Regular_File n\<close>: \<^verbatim>\<open>is_regular_file(entry)\<close> holds and \<^verbatim>\<open>file_size(entry)\<close> is \<open>n\<close>;
  \<^item> \<open>Unsized_File\<close>: \<^verbatim>\<open>is_regular_file(entry)\<close> holds and \<^verbatim>\<open>file_size(entry)\<close> throws;
  \<^item> \<open>Other_Entry\<close>: \<^verbatim>\<open>is_regular_file(entry)\<close> is false;
  \<^item> \<open>Unreadable_Entry\<close>: \<^verbatim>\<open>is_regular_file(entry)\<close> throws;
  \<^item> \<open>Listing_Failure\<close>: the iterator itself throws, when it is constructed (head of
    the list) or advanced.
  A directory is the list of these steps in iteration order; nothing after the first
  throwing step is ever reached.
\<close>

datatype child = Regular_File "64 word" | Unsized_File | Other_Entry | Unreadable_Entry
  | Listing_Failure

text \<open>
  What \<^verbatim>\<open>fs::is_directory(pth)\<close> answers: it throws (\<open>Status_Failure\<close>, for instance on
  a symbolic-link loop or a parent that cannot be searched), or it is false, or it is
  true and the directory can be iterated as given.
\<close>

datatype node = Status_Failure | Not_Directory | Directory "child list"

type_synonym filesystem = "string \<Rightarrow> node"

text \<open>
  The exceptions of the program. \<open>Filesystem_Error pth\<close> is a
  \<^verbatim>\<open>std::filesystem::filesystem_error\<close> raised while \<open>pth\<close> was examined;
  \<open>Division_By_Zero\<close> stands for the undefined integer division by zero.
\<close>

datatype error = Filesystem_Error string | Division_By_Zero

section \<open>The chunk aggregator\<close>

text \<open>
  The body of the \<^verbatim>\<open>try\<close> block (lines 45 to 50):
  \<^verbatim>\<open>
  for (const auto& entry : fs::directory_iterator{pth}) {
      if (fs::is_regular_file(entry)) {
          res[dir_name].num_files += 1;
          res[dir_name].total_size += fs::file_size(entry);
      }
  }
  \<close>
  The result is the map as the block leaves it and whether it left by an exception.
  When \<^verbatim>\<open>file_size\<close> throws, \<open>num_files\<close> has already been incremented.
\<close>

fun iterate_children :: "string \<Rightarrow> child list \<Rightarrow> map_type \<Rightarrow> bool \<times> map_type" where
  "iterate_children dir_name [] res = (False, res)"
| "iterate_children dir_name (Listing_Failure # es) res = (True, res)"
| "iterate_children dir_name (Unreadable_Entry # es) res = (True, res)"
| "iterate_children dir_name (Other_Entry # es) res = iterate_children dir_name es res"
| "iterate_children dir_name (Unsized_File # es) res =
     (True, at_key dir_name (\<lambda>i. i\<lparr>num_files := num_files i + 1\<rparr>) res)"
| "iterate_children dir_name (Regular_File n # es) res =
     iterate_children dir_name es
       (at_key dir_name (\<lambda>i. i\<lparr>total_size := total_size i + n\<rparr>)
         (at_key dir_name (\<lambda>i. i\<lparr>num_files := num_files i + 1\<rparr>) res))"

text \<open>
  The loop over the chunk (lines 37 to 56). The state is \<open>res\<close> and the lines written to
  \<^verbatim>\<open>std::cerr\<close>. \<^verbatim>\<open>fs::is_directory(pth)\<close> stands outside the \<^verbatim>\<open>try\<close> block, so
  its exception leaves the function (\<open>Inl\<close>); an exception of the block is caught and
  logged, and the loop goes on with the next path of the chunk.
\<close>

fun generate_loop ::
  "filesystem \<Rightarrow> string list \<Rightarrow> map_type \<times> error list \<Rightarrow> error + map_type \<times> error list" where
  "generate_loop fs [] st = Inr st"
| "generate_loop fs (pth # chunk) st =
     (case fs pth of
        Status_Failure \<Rightarrow> Inl (Filesystem_Error pth)
      | Not_Directory \<Rightarrow> generate_loop fs chunk st
      | Directory es \<Rightarrow>
          (let dir_name = filename pth;
               res1 = at_key dir_name (\<lambda>i. i\<lparr>num_files := 0\<rparr>) (fst st);
               res2 = at_key dir_name (\<lambda>i. i\<lparr>total_size := 0\<rparr>) res1;
               (threw, res3) = iterate_children dir_name es res2
           in generate_loop fs chunk
                (res3, if threw then snd st @ [Filesystem_Error pth] else snd st)))"

text \<open>
  \<^verbatim>\<open>map_type generate_map(const std::vector<fs::path>& chunk)\<close>: the loop from the empty
  map. The debugging lines it prints to \<^verbatim>\<open>std::cout\<close> before returning do not change
  \<open>res\<close> and are left out.
\<close>

definition generate_map :: "filesystem \<Rightarrow> string list \<Rightarrow> error + map_type \<times> error list" where
  "generate_map fs chunk = generate_loop fs chunk ([], [])"

section \<open>The partition of the path list in main\<close>

text \<open>
  \<^verbatim>\<open>
  auto const hardw_threads = std::thread::hardware_concurrency();   // unsigned int
  auto const num_futures = hardw_threads - 1;
  auto const max_chunk_sz = paths.size() / hardw_threads;
  for (std::size_t i = 0; i < num_futures; ++i) {
      auto begin = paths.begin() + i * max_chunk_sz;
      auto end = (i == num_futures - 1) ? paths.end() : begin + max_chunk_sz;
      ... std::vector<fs::path>(begin, end) ...
  }
  \<close>
  \<open>hardw_threads\<close> and \<open>num_futures\<close> are 32-bit unsigned, so \<open>0 - 1\<close> wraps. The
  \<^verbatim>\<open>std::size_t\<close> quantities are positions in \<open>paths\<close> and are natural numbers here:
  \<open>chunk_bounds\<close> below shows that none exceeds \<open>length paths\<close>.
\<close>

definition num_futures :: "32 word \<Rightarrow> 32 word" where
  "num_futures hardw_threads = hardw_threads - 1"

definition max_chunk_sz :: "'a list \<Rightarrow> 32 word \<Rightarrow> nat" where
  "max_chunk_sz paths hardw_threads = length paths div unat hardw_threads"

definition chunk_begin :: "'a list \<Rightarrow> 32 word \<Rightarrow> nat \<Rightarrow> nat" where
  "chunk_begin paths hardw_threads i = i * max_chunk_sz paths hardw_threads"

definition chunk_end :: "'a list \<Rightarrow> 32 word \<Rightarrow> nat \<Rightarrow> nat" where
  "chunk_end paths hardw_threads i =
     (if i = unat (num_futures hardw_threads - 1) then length paths
      else chunk_begin paths hardw_threads i + max_chunk_sz paths hardw_threads)"

text \<open>\<^verbatim>\<open>std::vector<fs::path>(begin, end)\<close>: the elements from \<open>begin\<close> up to \<open>end\<close>.\<close>

definition chunk_at :: "'a list \<Rightarrow> 32 word \<Rightarrow> nat \<Rightarrow> 'a list" where
  "chunk_at paths hardw_threads i =
     take (chunk_end paths hardw_threads i - chunk_begin paths hardw_threads i)
       (drop (chunk_begin paths hardw_threads i) paths)"

text \<open>
  The chunks handed to \<^verbatim>\<open>std::async\<close>, in the order of the futures. The division of
  line 92 comes before the loop, so with \<open>hardw_threads = 0\<close> no chunk is ever made.
\<close>

definition plan_chunks :: "32 word \<Rightarrow> 'a list \<Rightarrow> error + 'a list list" where
  "plan_chunks hardw_threads paths =
     (if hardw_threads = 0 then Inl Division_By_Zero
      else Inr (map (chunk_at paths hardw_threads) [0..<unat (num_futures hardw_threads)]))"

section \<open>Aggregation and merge in main\<close>

text \<open>
  \<^verbatim>\<open>future.get()\<close> returns the partial map of a worker or rethrows the exception that
  left \<^verbatim>\<open>generate_map\<close>; \<open>main\<close> does not catch it. Every chunk is taken to get its
  worker: the failure of \<^verbatim>\<open>std::async\<close> itself (lines 103 to 106, an empty map in place
  of the result) depends on the resources of the machine and is not modelled.
\<close>

fun await_all :: "(error + map_type \<times> error list) list \<Rightarrow> error + map_type list" where
  "await_all [] = Inr []"
| "await_all (Inl e # futures) = Inl e"
| "await_all (Inr (partial_map, log) # futures) =
     (case await_all futures of Inl e \<Rightarrow> Inl e | Inr ms \<Rightarrow> Inr (partial_map # ms))"

definition partial_maps :: "filesystem \<Rightarrow> 32 word \<Rightarrow> string list \<Rightarrow> error + map_type list" where
  "partial_maps fs hardw_threads paths =
     (case plan_chunks hardw_threads paths of
        Inl e \<Rightarrow> Inl e
      | Inr chunks \<Rightarrow> await_all (map (generate_map fs) chunks))"

text \<open>
  \<open>processed_data\<close> and \<open>directory_counter\<close> once every future has been merged, from the
  empty map and the counter 0 of lines 87 and 88.
\<close>

definition scan :: "filesystem \<Rightarrow> 32 word \<Rightarrow> string list \<Rightarrow> error + map_type \<times> 64 word" where
  "scan fs hardw_threads paths =
     (case partial_maps fs hardw_threads paths of
        Inl e \<Rightarrow> Inl e
      | Inr ms \<Rightarrow> Inr (merge_all ms ([], 0)))"

section \<open>The report\<close>

text \<open>
  \<^verbatim>\<open>
  for (const auto& [dir, info] : processed_data)
      if (info.num_files > 0)
          pel::println("{:>25}: {:>5} files {:>10} bytes", dir, info.num_files, info.total_size);
  \<close>
  A printed line is the triple of its three arguments.
\<close>

fun print_directories :: "map_type \<Rightarrow> (string \<times> 64 word \<times> 64 word) list" where
  "print_directories [] = []"
| "print_directories ((dir, info) # rest) =
     (if num_files info > 0 then (dir, num_files info, total_size info) # print_directories rest
      else print_directories rest)"

text \<open>
  \<^verbatim>\<open>
  auto total_subdirectories = std::accumulate(processed_data.begin(), processed_data.end(), 0,
      [](int sum, const auto& entry) { return sum + entry.second.num_files; });
  auto total_space = std::accumulate(processed_data.begin(), processed_data.end(), 0,
      [](std::uintmax_t sum, const auto& entry) { return sum + entry.second.total_size; });
  \<close>
  The initial value \<open>0\<close> is an \<open>int\<close>, so the accumulator of both calls is a 32-bit
  \<open>int\<close>: each step converts it to \<open>std::uintmax_t\<close> (sign extension), adds in 64 bits,
  and converts the sum back to \<open>int\<close> (the low 32 bits).
\<close>

definition accumulate_int :: "(Extension_info \<Rightarrow> 64 word) \<Rightarrow> map_type \<Rightarrow> 32 word" where
  "accumulate_int field m =
     foldl (\<lambda>sum entry. ucast ((scast sum :: 64 word) + field (snd entry))) 0 m"

definition total_subdirectories :: "map_type \<Rightarrow> 32 word" where
  "total_subdirectories m = accumulate_int num_files m"

definition total_space :: "map_type \<Rightarrow> 32 word" where
  "total_space m = accumulate_int total_size m"

text \<open>
  The numbers of the summary line: the two totals, printed as the signed \<open>int\<close>s they
  are, and \<^verbatim>\<open>directory_counter.load()\<close>. The elapsed time is not modelled.
\<close>

definition summary_line :: "map_type \<Rightarrow> 64 word \<Rightarrow> int \<times> int \<times> nat" where
  "summary_line m directory_counter =
     (sint (total_subdirectories m), sint (total_space m), unat directory_counter)"

section \<open>Vocabulary for the statements about the chunk aggregator\<close>

text \<open>
  The functions of this section are not code of the program: they say, in terms of the
  file system alone, what the results of \<open>generate_map\<close> are compared with.
  \<open>raises\<close> marks the steps of a listing at which an exception is thrown.
\<close>

fun raises :: "child \<Rightarrow> bool" where
  "raises (Regular_File n) = False"
| "raises Other_Entry = False"
| "raises Unsized_File = True"
| "raises Unreadable_Entry = True"
| "raises Listing_Failure = True"

text \<open>
  The counts of one directory taken by itself: every regular file up to the first
  throwing step adds one file and its size; a file whose size cannot be read still adds
  one file.
\<close>

fun child_stats :: "child list \<Rightarrow> Extension_info \<Rightarrow> Extension_info" where
  "child_stats [] acc = acc"
| "child_stats (Regular_File n # es) acc =
     child_stats es (acc\<lparr>num_files := num_files acc + 1, total_size := total_size acc + n\<rparr>)"
| "child_stats (Other_Entry # es) acc = child_stats es acc"
| "child_stats (Unsized_File # es) acc = acc\<lparr>num_files := num_files acc + 1\<rparr>"
| "child_stats (Unreadable_Entry # es) acc = acc"
| "child_stats (Listing_Failure # es) acc = acc"

definition dir_stats :: "child list \<Rightarrow> Extension_info" where
  "dir_stats es = child_stats es zero_info"

text \<open>The sizes of the regular files of a listing, in listing order.\<close>

fun file_sizes :: "child list \<Rightarrow> 64 word list" where
  "file_sizes [] = []"
| "file_sizes (Regular_File n # es) = n # file_sizes es"
| "file_sizes (e # es) = file_sizes es"

fun is_dir :: "node \<Rightarrow> bool" where
  "is_dir (Directory es) = True"
| "is_dir n = False"

text \<open>The listing of the last directory of the chunk whose final name component is \<open>name\<close>.\<close>

fun last_listing :: "filesystem \<Rightarrow> string list \<Rightarrow> string \<Rightarrow> child list option" where
  "last_listing fs [] name = None"
| "last_listing fs (pth # chunk) name =
     (case last_listing fs chunk name of
        Some es \<Rightarrow> Some es
      | None \<Rightarrow>
          (case fs pth of
             Directory es \<Rightarrow> if filename pth = name then Some es else None
           | _ \<Rightarrow> None))"

text \<open>The directories of the chunk whose scan throws, as the lines logged for them.\<close>

fun scan_failed :: "node \<Rightarrow> bool" where
  "scan_failed (Directory es) = list_ex raises es"
| "scan_failed n = False"

definition failures :: "filesystem \<Rightarrow> string list \<Rightarrow> error list" where
  "failures fs chunk = map Filesystem_Error (filter (\<lambda>pth. scan_failed (fs pth)) chunk)"

text \<open>No directory among the paths \<open>after\<close> has the final name component of \<open>pth\<close>.\<close>

definition name_not_reused :: "filesystem \<Rightarrow> string \<Rightarrow> string list \<Rightarrow> bool" where
  "name_not_reused fs pth after =
     list_all (\<lambda>q. \<not> (is_dir (fs q) \<and> filename q = filename pth)) after"

text \<open>The partial maps have no directory name in common.\<close>

fun disjoint_keys :: "map_type list \<Rightarrow> bool" where
  "disjoint_keys [] = True"
| "disjoint_keys (p # ps) = (keys_of p \<inter> \<Union>(keys_of ` set ps) = {} \<and> disjoint_keys ps)"

section \<open>Concrete inputs\<close>

text \<open>
  A small tree under \<open>/r\<close>, seen as \<open>generate_map\<close> sees it: \<open>/r/a\<close> holds the
  directory \<open>x\<close> and one file of 10 bytes, \<open>/r/a/x\<close> one file of 5 bytes, \<open>/r/b\<close> only
  the directory \<open>x\<close>, and \<open>/r/b/x\<close> two files of 7 and 8 bytes. \<open>tree_paths\<close> is its
  recursive enumeration.
\<close>

definition tree :: filesystem where
  "tree pth =
     (case map_of
        [(''/r/a'', Directory [Other_Entry, Regular_File 10]),
         (''/r/a/x'', Directory [Regular_File 5]),
         (''/r/b'', Directory [Other_Entry]),
         (''/r/b/x'', Directory [Regular_File 7, Regular_File 8])] pth of
        Some n \<Rightarrow> n
      | None \<Rightarrow> Not_Directory)"

definition tree_paths :: "string list" where
  "tree_paths =
     [''/r/a'', ''/r/a/x'', ''/r/a/x/g'', ''/r/a/f'',
      ''/r/b'', ''/r/b/x'', ''/r/b/x/h'', ''/r/b/x/k'']"

text \<open>
  The same tree when \<open>/r/a\<close> cannot be listed at all and the size of the second file of
  \<open>/r/b/x\<close> cannot be read.
\<close>

definition faulty_tree :: filesystem where
  "faulty_tree pth =
     (case map_of
        [(''/r/a'', Directory [Listing_Failure, Other_Entry, Regular_File 10]),
         (''/r/a/x'', Directory [Regular_File 5]),
         (''/r/b'', Directory [Other_Entry]),
         (''/r/b/x'', Directory [Regular_File 7, Unsized_File])] pth of
        Some n \<Rightarrow> n
      | None \<Rightarrow> Not_Directory)"

text \<open>Two partial maps that share the directory name \<open>x\<close>.\<close>

definition partial_one :: map_type where
  "partial_one =
     [(''a'', \<lparr>num_files = 1, total_size = 10\<rparr>), (''x'', \<lparr>num_files = 1, total_size = 5\<rparr>)]"

definition partial_two :: map_type where
  "partial_two =
     [(''b'', \<lparr>num_files = 0, total_size = 0\<rparr>), (''x'', \<lparr>num_files = 2, total_size = 15\<rparr>)]"

text \<open>
  A tree in which \<open>/r/a\<close> has lost its read and search permission after the paths were
  enumerated: \<open>/r/a\<close> cannot be listed, and \<^verbatim>\<open>fs::is_directory\<close> throws for \<open>/r/a/x\<close>.
  \<open>/r/b\<close> holds one file of 7 bytes.
\<close>

definition broken_tree :: filesystem where
  "broken_tree pth =
     (case map_of
        [(''/r/b'', Directory [Regular_File 7]),
         (''/r/a'', Directory [Listing_Failure]),
         (''/r/a/x'', Status_Failure)] pth of
        Some n \<Rightarrow> n
      | None \<Rightarrow> Not_Directory)"

text \<open>A directory \<open>/r/a\<close> with a single regular file of 2 GiB (2147483648 bytes).\<close>

definition big_tree :: filesystem where
  "big_tree pth = (if pth = ''/r/a'' then Directory [Regular_File 2147483648] else Not_Directory)"

text \<open>
  The global map of a root with the subdirectories \<open>a\<close>, holding three files of 10, 20
  and 30 bytes, and \<open>b\<close>, holding none.
\<close>

definition report_example :: map_type where
  "report_example =
     [(''a'', \<lparr>num_files = 3, total_size = 60\<rparr>), (''b'', \<lparr>num_files = 0, total_size = 0\<rparr>)]"

section \<open>Properties of the map representation\<close>

lemma keys_of_Nil: "keys_of [] = {}"
  by (simp add: keys_of_def)

lemma keys_of_Cons: "keys_of ((k, v) # m) = insert k (keys_of m)"
  by (simp add: keys_of_def)

lemma map_inv_Nil: "map_inv []"
  by (simp add: map_inv_def)

lemma map_inv_Cons: "map_inv ((k, v) # m) \<longleftrightarrow> (\<forall>k' \<in> keys_of m. k < k') \<and> map_inv m"
  by (auto simp: map_inv_def keys_of_def)

lemma map_inv_distinct: "map_inv m \<Longrightarrow> distinct (map fst m)"
  by (simp add: map_inv_def strict_sorted_iff)

lemma keys_of_at_key: "keys_of (at_key k f m) = insert k (keys_of m)"
  by (induction k f m rule: at_key.induct) (auto simp: keys_of_Cons keys_of_Nil)

lemma map_inv_at_key: "map_inv m \<Longrightarrow> map_inv (at_key k f m)"
proof (induction k f m rule: at_key.induct)
  case (1 k f)
  show ?case by (simp add: map_inv_Cons map_inv_Nil keys_of_Nil)
next
  case (2 k f k' v m)
  then show ?case
    by (auto simp: map_inv_Cons keys_of_at_key keys_of_Cons)
qed

lemma map_of_at_key:
  "map_inv m \<Longrightarrow> map_of (at_key k f m) k' = (if k' = k then Some (f (info_at m k)) else map_of m k')"
proof (induction k f m rule: at_key.induct)
  case (1 k f)
  show ?case by (simp add: info_at_def)
next
  case (2 k f k0 v m)
  have absent: "k < k0 \<Longrightarrow> map_of m k = None"
  proof -
    assume "k < k0"
    with "2.prems" have "k \<notin> keys_of m"
      by (auto simp: map_inv_Cons)
    then show ?thesis
      by (simp add: keys_of_def map_of_eq_None_iff)
  qed
  from 2 show ?case
    by (auto simp: map_inv_Cons info_at_def absent)
qed

lemma info_at_at_key:
  "map_inv m \<Longrightarrow> info_at (at_key k f m) k' = (if k' = k then f (info_at m k) else info_at m k')"
  by (simp add: info_at_def map_of_at_key)

lemma map_of_keys_of: "map_of m k = None \<longleftrightarrow> k \<notin> keys_of m"
  by (simp add: keys_of_def map_of_eq_None_iff)

lemma info_at_absent: "k \<notin> keys_of m \<Longrightarrow> info_at m k = zero_info"
  by (simp add: info_at_def map_of_keys_of [symmetric])

lemma map_of_info_at: "k \<in> keys_of m \<Longrightarrow> map_of m k = Some (info_at m k)"
  by (cases "map_of m k") (auto simp: info_at_def map_of_keys_of)

lemma length_card_keys: "map_inv m \<Longrightarrow> length m = card (keys_of m)"
  using distinct_card [OF map_inv_distinct, of m] by (simp add: keys_of_def)

lemma finite_keys_of: "finite (keys_of m)"
  by (simp add: keys_of_def)

lemma info_at_Cons: "info_at ((k, v) # m) k' = (if k' = k then v else info_at m k')"
  by (simp add: info_at_def)

section \<open>Properties of the merge reducer\<close>

lemma merge_entries_inv: "map_inv g \<Longrightarrow> map_inv (merge_entries p g)"
  by (induction p g rule: merge_entries.induct) (simp_all add: map_inv_at_key)

lemma keys_of_merge_entries: "keys_of (merge_entries p g) = keys_of g \<union> keys_of p"
  by (induction p g rule: merge_entries.induct)
    (auto simp: keys_of_at_key keys_of_Cons keys_of_Nil)

text \<open>One merge adds the partial entry of a name, field by field, to the global one.\<close>

lemma merge_entries_info:
  "map_inv g \<Longrightarrow> map_inv p \<Longrightarrow>
   info_at (merge_entries p g) k =
     \<lparr>num_files = num_files (info_at g k) + num_files (info_at p k),
      total_size = total_size (info_at g k) + total_size (info_at p k)\<rparr>"
proof (induction p g rule: merge_entries.induct)
  case (1 g)
  show ?case by (simp add: info_at_def zero_info_def)
next
  case (2 dir info rest g)
  let ?g1 = "at_key dir (\<lambda>g. g\<lparr>num_files := num_files g + num_files info\<rparr>) g"
  let ?g2 = "at_key dir (\<lambda>g. g\<lparr>total_size := total_size g + total_size info\<rparr>) ?g1"
  have inv1: "map_inv ?g1" and inv2: "map_inv ?g2"
    using "2.prems"(1) by (simp_all add: map_inv_at_key)
  have rest: "map_inv rest" and fresh: "dir \<notin> keys_of rest"
    using "2.prems"(2) by (auto simp: map_inv_Cons)
  have step: "info_at (merge_entries rest ?g2) k =
     \<lparr>num_files = num_files (info_at ?g2 k) + num_files (info_at rest k),
      total_size = total_size (info_at ?g2 k) + total_size (info_at rest k)\<rparr>"
    using "2.IH" [OF inv2 rest] .
  show ?case
  proof (cases "k = dir")
    case True
    then show ?thesis
      using step fresh "2.prems"(1) inv1
      by (simp add: info_at_at_key info_at_absent info_at_Cons zero_info_def)
  next
    case False
    then show ?thesis
      using step "2.prems"(1) inv1
      by (simp add: info_at_at_key info_at_Cons)
  qed
qed

lemma merge_all_inv: "map_inv (fst st) \<Longrightarrow> map_inv (fst (merge_all ps st))"
  by (induction ps st rule: merge_all.induct) (simp_all add: process_map_def merge_entries_inv)

lemma keys_of_merge_all:
  "keys_of (fst (merge_all ps st)) = keys_of (fst st) \<union> \<Union>(keys_of ` set ps)"
  by (induction ps st rule: merge_all.induct) (auto simp: process_map_def keys_of_merge_entries)

lemma merge_all_counter: "snd (merge_all ps st) = snd st + of_nat (\<Sum>p\<leftarrow>ps. length p)"
  by (induction ps st rule: merge_all.induct) (simp_all add: process_map_def)

lemma merge_all_info:
  "map_inv (fst st) \<Longrightarrow> \<forall>p \<in> set ps. map_inv p \<Longrightarrow>
   info_at (fst (merge_all ps st)) k =
     \<lparr>num_files = num_files (info_at (fst st) k) + (\<Sum>p\<leftarrow>ps. num_files (info_at p k)),
      total_size = total_size (info_at (fst st) k) + (\<Sum>p\<leftarrow>ps. total_size (info_at p k))\<rparr>"
proof (induction ps st rule: merge_all.induct)
  case (1 st)
  show ?case by simp
next
  case (2 p rest st)
  have inv: "map_inv (fst (process_map p st))"
    using "2.prems"(1) by (simp add: process_map_def merge_entries_inv)
  have "info_at (fst (process_map p st)) k =
     \<lparr>num_files = num_files (info_at (fst st) k) + num_files (info_at p k),
      total_size = total_size (info_at (fst st) k) + total_size (info_at p k)\<rparr>"
    using "2.prems" by (simp add: process_map_def merge_entries_info)
  with "2.IH" [OF inv] "2.prems"(2) show ?case
    by (simp add: add.assoc)
qed

text \<open>A partial map that lacks the name contributes the value-initialised struct, that is 0.\<close>

lemma sum_list_containing:
  "(\<Sum>p\<leftarrow>ps. num_files (info_at p k)) =
     (\<Sum>p\<leftarrow>filter (\<lambda>p. k \<in> keys_of p) ps. num_files (info_at p k))"
  "(\<Sum>p\<leftarrow>ps. total_size (info_at p k)) =
     (\<Sum>p\<leftarrow>filter (\<lambda>p. k \<in> keys_of p) ps. total_size (info_at p k))"
  by (induction ps) (simp_all add: info_at_absent zero_info_def)

lemma example_partials_inv: "map_inv partial_one \<and> map_inv partial_two"
  by (simp add: map_inv_def partial_one_def partial_two_def)

text \<open>
  C2. After the partial maps \<open>partials\<close> have been merged, one \<open>process_map\<close> call each,
  into a global map, the keys of the global map are its former keys together with every
  name of every partial map, each exactly once (the keys stay strictly ascending), and
  the entry of each name holds, field by field, the former global value (the
  value-initialised 0 when the name was absent) plus the sum of the values of exactly
  those partial maps that contain the name. The fields are \<open>std::uintmax_t\<close>, and the
  sums are sums of that type.
\<close>

theorem process_map_additive:
  fixes global_map :: map_type and partials :: "map_type list" and counter :: "64 word"
  defines "merged \<equiv> fst (merge_all partials (global_map, counter))"
  assumes "map_inv global_map" and "\<forall>p \<in> set partials. map_inv p"
  shows "map_inv merged \<and>
    keys_of merged = keys_of global_map \<union> \<Union>(keys_of ` set partials) \<and>
    (\<forall>name. name \<in> keys_of merged \<longrightarrow>
       map_of merged name = Some
         \<lparr>num_files = num_files (info_at global_map name) +
            (\<Sum>p\<leftarrow>filter (\<lambda>p. name \<in> keys_of p) partials. num_files (info_at p name)),
          total_size = total_size (info_at global_map name) +
            (\<Sum>p\<leftarrow>filter (\<lambda>p. name \<in> keys_of p) partials. total_size (info_at p name))\<rparr>)"
proof (intro conjI allI impI)
  show "map_inv merged"
    using assms(2) by (simp add: merged_def merge_all_inv)
  show "keys_of merged = keys_of global_map \<union> \<Union>(keys_of ` set partials)"
    by (simp add: merged_def keys_of_merge_all)
  fix name
  assume "name \<in> keys_of merged"
  then have "map_of merged name = Some (info_at merged name)"
    by (rule map_of_info_at)
  also have "info_at merged name =
     \<lparr>num_files = num_files (info_at global_map name) +
        (\<Sum>p\<leftarrow>partials. num_files (info_at p name)),
      total_size = total_size (info_at global_map name) +
        (\<Sum>p\<leftarrow>partials. total_size (info_at p name))\<rparr>"
    unfolding merged_def using assms(2,3) merge_all_info [of "(global_map, counter)" partials name]
    by simp
  finally show "map_of merged name = Some
     \<lparr>num_files = num_files (info_at global_map name) +
        (\<Sum>p\<leftarrow>filter (\<lambda>p. name \<in> keys_of p) partials. num_files (info_at p name)),
      total_size = total_size (info_at global_map name) +
        (\<Sum>p\<leftarrow>filter (\<lambda>p. name \<in> keys_of p) partials. total_size (info_at p name))\<rparr>"
    using sum_list_containing [where ps = partials and k = name] by simp
qed

theorem process_map_additive_witness:
  "map_inv [] \<and> map_inv partial_one \<and> map_inv partial_two \<and>
   keys_of (fst (merge_all [partial_one, partial_two] ([], 0))) = {''a'', ''b'', ''x''} \<and>
   map_of (fst (merge_all [partial_one, partial_two] ([], 0))) ''x'' =
     Some \<lparr>num_files = 3, total_size = 20\<rparr> \<and>
   map_of (fst (merge_all [partial_one, partial_two] ([], 0))) ''a'' =
     Some \<lparr>num_files = 1, total_size = 10\<rparr>"
proof -
  have inv: "map_inv []" "\<forall>p \<in> set [partial_one, partial_two]. map_inv p"
    using example_partials_inv by (simp_all add: map_inv_Nil)
  have keys: "keys_of partial_one = {''a'', ''x''}" "keys_of partial_two = {''b'', ''x''}"
    by (auto simp: keys_of_def partial_one_def partial_two_def)
  have vals: "info_at partial_one ''x'' = \<lparr>num_files = 1, total_size = 5\<rparr>"
    "info_at partial_two ''x'' = \<lparr>num_files = 2, total_size = 15\<rparr>"
    "info_at partial_one ''a'' = \<lparr>num_files = 1, total_size = 10\<rparr>"
    by (simp_all add: info_at_def partial_one_def partial_two_def)
  note merged = process_map_additive [OF inv, of 0]
  from merged have k: "keys_of (fst (merge_all [partial_one, partial_two] ([], 0))) = {''a'', ''b'', ''x''}"
    by (auto simp: keys keys_of_Nil)
  let ?m = "fst (merge_all [partial_one, partial_two] ([], 0))"
  from merged have entry: "name \<in> keys_of ?m \<Longrightarrow> map_of ?m name = Some
     \<lparr>num_files = num_files (info_at [] name) +
        (\<Sum>p\<leftarrow>filter (\<lambda>p. name \<in> keys_of p) [partial_one, partial_two].
           num_files (info_at p name)),
      total_size = total_size (info_at [] name) +
        (\<Sum>p\<leftarrow>filter (\<lambda>p. name \<in> keys_of p) [partial_one, partial_two].
           total_size (info_at p name))\<rparr>" for name
    by blast
  have present: "''x'' \<in> keys_of ?m" "''a'' \<in> keys_of ?m"
    unfolding k by simp_all
  have "map_of ?m ''x'' = Some \<lparr>num_files = 3, total_size = 20\<rparr>"
    using entry [OF present(1)] by (simp add: keys vals info_at_absent keys_of_Nil zero_info_def)
  moreover have "map_of ?m ''a'' = Some \<lparr>num_files = 1, total_size = 10\<rparr>"
    using entry [OF present(2)] by (simp add: keys vals info_at_absent keys_of_Nil zero_info_def)
  ultimately have
    "map_of (fst (merge_all [partial_one, partial_two] ([], 0))) ''x'' =
       Some \<lparr>num_files = 3, total_size = 20\<rparr>"
    "map_of (fst (merge_all [partial_one, partial_two] ([], 0))) ''a'' =
       Some \<lparr>num_files = 1, total_size = 10\<rparr>"
    by simp_all
  with inv k show ?thesis
    by simp
qed

section \<open>Properties of the chunk aggregator\<close>

lemma reset_info: "i\<lparr>num_files := 0, total_size := 0\<rparr> = zero_info"
  by (cases i) (simp add: zero_info_def)

lemma iterate_children_spec:
  "map_inv res \<Longrightarrow> name \<in> keys_of res \<Longrightarrow>
   fst (iterate_children name es res) = list_ex raises es \<and>
   map_inv (snd (iterate_children name es res)) \<and>
   keys_of (snd (iterate_children name es res)) = keys_of res \<and>
   (\<forall>k. info_at (snd (iterate_children name es res)) k =
      (if k = name then child_stats es (info_at res name) else info_at res k))"
proof (induction name es res rule: iterate_children.induct)
  case (5 dir_name es res)
  then show ?case
    by (auto simp: map_inv_at_key keys_of_at_key info_at_at_key)
next
  case (6 dir_name n es res)
  let ?r1 = "at_key dir_name (\<lambda>i. i\<lparr>num_files := num_files i + 1\<rparr>) res"
  let ?r2 = "at_key dir_name (\<lambda>i. i\<lparr>total_size := total_size i + n\<rparr>) ?r1"
  have inv: "map_inv ?r1" "map_inv ?r2"
    using "6.prems"(1) by (simp_all add: map_inv_at_key)
  have keys: "keys_of ?r2 = keys_of res"
    using "6.prems"(2) by (auto simp: keys_of_at_key)
  have info: "info_at ?r2 k =
    (if k = dir_name
     then (info_at res dir_name)\<lparr>num_files := num_files (info_at res dir_name) + 1,
            total_size := total_size (info_at res dir_name) + n\<rparr>
     else info_at res k)" for k
    using "6.prems"(1) inv(1) by (simp add: info_at_at_key)
  from "6.IH" [OF inv(2)] keys "6.prems"(2) show ?case
    by (simp add: info)
qed simp_all

lemma directory_step:
  fixes res :: map_type and name :: string and es :: "child list"
  assumes "map_inv res"
  defines "r \<equiv> iterate_children name es
     (at_key name (\<lambda>i. i\<lparr>total_size := 0\<rparr>) (at_key name (\<lambda>i. i\<lparr>num_files := 0\<rparr>) res))"
  shows "fst r = list_ex raises es" and "map_inv (snd r)"
    and "keys_of (snd r) = insert name (keys_of res)"
    and "map_of (snd r) k = (if k = name then Some (dir_stats es) else map_of res k)"
proof -
  let ?r1 = "at_key name (\<lambda>i. i\<lparr>num_files := 0\<rparr>) res"
  let ?r2 = "at_key name (\<lambda>i. i\<lparr>total_size := 0\<rparr>) ?r1"
  have inv: "map_inv ?r1" "map_inv ?r2"
    using assms(1) by (simp_all add: map_inv_at_key)
  have keys: "keys_of ?r2 = insert name (keys_of res)"
    by (auto simp: keys_of_at_key)
  then have present: "name \<in> keys_of ?r2"
    by simp
  have start: "info_at ?r2 name = zero_info"
    using assms(1) inv(1) by (simp add: info_at_at_key reset_info)
  note spec = iterate_children_spec [OF inv(2) present, of es, folded r_def]
  show "fst r = list_ex raises es" and "map_inv (snd r)"
    using spec by simp_all
  show k: "keys_of (snd r) = insert name (keys_of res)"
    using spec keys by simp
  show "map_of (snd r) k = (if k = name then Some (dir_stats es) else map_of res k)"
  proof (cases "k = name")
    case True
    have "info_at (snd r) name = child_stats es (info_at ?r2 name)"
      using spec by simp
    moreover have "map_of (snd r) name = Some (info_at (snd r) name)"
      by (rule map_of_info_at) (simp add: k)
    ultimately show ?thesis
      using True by (simp add: start dir_stats_def)
  next
    case False
    have "map_of ?r2 k = map_of res k"
      using False assms(1) inv(1) by (simp add: map_of_at_key)
    moreover have "map_of (snd r) k = map_of ?r2 k"
    proof (cases "k \<in> keys_of ?r2")
      case True
      then show ?thesis
        using spec False map_of_info_at [of k "snd r"] map_of_info_at [of k ?r2] by simp
    next
      case False
      moreover have "keys_of (snd r) = keys_of ?r2"
        using spec by simp
      ultimately have "map_of (snd r) k = None" "map_of ?r2 k = None"
        by (simp_all add: map_of_keys_of)
      then show ?thesis
        by simp
    qed
    ultimately show ?thesis
      using False by simp
  qed
qed

lemma generate_loop_spec:
  "map_inv res \<Longrightarrow> \<forall>pth \<in> set chunk. fs pth \<noteq> Status_Failure \<Longrightarrow>
   \<exists>res'. generate_loop fs chunk (res, log) = Inr (res', log @ failures fs chunk) \<and>
     map_inv res' \<and>
     keys_of res' = keys_of res \<union> filename ` {pth \<in> set chunk. is_dir (fs pth)} \<and>
     (\<forall>name. map_of res' name =
        (case last_listing fs chunk name of None \<Rightarrow> map_of res name | Some es \<Rightarrow> Some (dir_stats es)))"
proof (induction chunk arbitrary: res log)
  case Nil
  then show ?case by (simp add: failures_def)
next
  case (Cons pth chunk)
  show ?case
  proof (cases "fs pth")
    case Status_Failure
    with Cons.prems show ?thesis by simp
  next
    case Not_Directory
    from Cons.IH [OF Cons.prems(1), of log] Cons.prems(2)
    obtain res' where res': "generate_loop fs chunk (res, log) = Inr (res', log @ failures fs chunk)"
      "map_inv res'"
      "keys_of res' = keys_of res \<union> filename ` {pth \<in> set chunk. is_dir (fs pth)}"
      "\<And>name. map_of res' name =
        (case last_listing fs chunk name of None \<Rightarrow> map_of res name | Some es \<Rightarrow> Some (dir_stats es))"
      by auto
    have "failures fs (pth # chunk) = failures fs chunk"
      using Not_Directory by (simp add: failures_def)
    moreover have "keys_of res' = keys_of res \<union> filename ` {p \<in> set (pth # chunk). is_dir (fs p)}"
      using res'(3) Not_Directory by auto
    moreover have "map_of res' name =
        (case last_listing fs (pth # chunk) name of None \<Rightarrow> map_of res name | Some es \<Rightarrow> Some (dir_stats es))" for name
      using res'(4) [of name] Not_Directory by (simp split: option.splits)
    ultimately show ?thesis
      using res'(1,2) Not_Directory by simp
  next
    case (Directory es)
    define r where "r = iterate_children (filename pth) es
      (at_key (filename pth) (\<lambda>i. i\<lparr>total_size := 0\<rparr>)
        (at_key (filename pth) (\<lambda>i. i\<lparr>num_files := 0\<rparr>) res))"
    note step = directory_step [OF Cons.prems(1), of "filename pth" es, folded r_def]
    define log' where "log' = (if fst r then log @ [Filesystem_Error pth] else log)"
    have unfold: "generate_loop fs (pth # chunk) (res, log) = generate_loop fs chunk (snd r, log')"
      using Directory by (simp add: r_def log'_def Let_def split: prod.splits)
    from Cons.IH [OF step(2), of log'] Cons.prems(2)
    obtain res' where res': "generate_loop fs chunk (snd r, log') = Inr (res', log' @ failures fs chunk)"
      "map_inv res'"
      "keys_of res' = keys_of (snd r) \<union> filename ` {pth \<in> set chunk. is_dir (fs pth)}"
      "\<And>name. map_of res' name =
        (case last_listing fs chunk name of None \<Rightarrow> map_of (snd r) name | Some es \<Rightarrow> Some (dir_stats es))"
      by auto
    have log: "log' @ failures fs chunk = log @ failures fs (pth # chunk)"
      using Directory step(1) by (simp add: log'_def failures_def)
    have keys: "keys_of res' = keys_of res \<union> filename ` {p \<in> set (pth # chunk). is_dir (fs p)}"
      using res'(3) step(3) Directory by auto
    have entries: "map_of res' name =
        (case last_listing fs (pth # chunk) name of None \<Rightarrow> map_of res name | Some es \<Rightarrow> Some (dir_stats es))" for name
      using res'(4) [of name] step(4) [of name] Directory by (simp split: option.splits)
    show ?thesis
      using unfold res'(1,2) log keys entries by simp
  qed
qed

lemma generate_map_spec:
  assumes "\<forall>pth \<in> set chunk. fs pth \<noteq> Status_Failure"
  shows "\<exists>res. generate_map fs chunk = Inr (res, failures fs chunk) \<and>
     map_inv res \<and>
     keys_of res = filename ` {pth \<in> set chunk. is_dir (fs pth)} \<and>
     (\<forall>name. map_of res name = map_option dir_stats (last_listing fs chunk name))"
proof -
  from generate_loop_spec [OF map_inv_Nil assms, of "[]"]
  obtain res where "generate_loop fs chunk ([], []) = Inr (res, [] @ failures fs chunk)"
    "map_inv res"
    "keys_of res = keys_of [] \<union> filename ` {pth \<in> set chunk. is_dir (fs pth)}"
    "\<And>name. map_of res name =
       (case last_listing fs chunk name of None \<Rightarrow> map_of [] name | Some es \<Rightarrow> Some (dir_stats es))"
    by blast
  then show ?thesis
    by (auto simp: generate_map_def keys_of_Nil split: option.splits)
qed

lemma last_listing_append:
  "last_listing fs (xs @ ys) name =
     (case last_listing fs ys name of Some es \<Rightarrow> Some es | None \<Rightarrow> last_listing fs xs name)"
  by (induction xs) (simp_all split: option.splits)

lemma last_listing_absent:
  "name_not_reused fs pth after \<Longrightarrow> last_listing fs after (filename pth) = None"
  by (induction after) (auto simp: name_not_reused_def split: option.splits node.splits)

lemma last_listing_here:
  "fs pth = Directory es \<Longrightarrow> name_not_reused fs pth after \<Longrightarrow>
   last_listing fs (before @ pth # after) (filename pth) = Some es"
  by (simp add: last_listing_append last_listing_absent)

lemma child_stats_complete:
  "\<not> list_ex raises es \<Longrightarrow>
   child_stats es acc =
     \<lparr>num_files = num_files acc + of_nat (length (file_sizes es)),
      total_size = total_size acc + sum_list (file_sizes es)\<rparr>"
  by (induction es acc rule: child_stats.induct) (simp_all add: add.assoc)



lemma dir_stats_complete:
  "\<not> list_ex raises es \<Longrightarrow>
   dir_stats es =
     \<lparr>num_files = of_nat (length (file_sizes es)), total_size = sum_list (file_sizes es)\<rparr>"
  by (simp add: dir_stats_def child_stats_complete zero_info_def)


lemma generate_map_single:
  assumes "fs pth = Directory es"
  shows "generate_map fs [pth] =
    Inr ([(filename pth, dir_stats es)], if list_ex raises es then [Filesystem_Error pth] else [])"
proof -
  have ok: "\<forall>p \<in> set [pth]. fs p \<noteq> Status_Failure"
    using assms by simp
  from generate_map_spec [OF ok] obtain res where
    res: "generate_map fs [pth] = Inr (res, failures fs [pth])" "map_inv res"
      "keys_of res = filename ` {p \<in> set [pth]. is_dir (fs p)}"
      "\<And>name. map_of res name = map_option dir_stats (last_listing fs [pth] name)"
    by blast
  have keys: "keys_of res = {filename pth}"
    using res(3) assms by auto
  have "length res = 1"
    using length_card_keys [OF res(2)] keys by simp
  then obtain k v where kv: "res = [(k, v)]"
    by (cases res) auto
  with keys have "k = filename pth"
    by (simp add: keys_of_def)
  moreover have "v = dir_stats es"
    using res(4) [of "filename pth"] kv \<open>k = filename pth\<close> assms by simp
  ultimately show ?thesis
    using res(1) kv assms by (simp add: failures_def)
qed

text \<open>
  The exception of \<^verbatim>\<open>fs::is_directory\<close> is the one that leaves \<open>generate_map\<close>: the
  statements below are about chunks whose paths all answer that call.
\<close>

lemma generate_map_status_failure:
  "fs pth = Status_Failure \<Longrightarrow> generate_map fs (pth # chunk) = Inl (Filesystem_Error pth)"
  by (simp add: generate_map_def)

lemma tree_status:
  "\<forall>pth \<in> set tree_paths. tree pth \<noteq> Status_Failure"
  "\<forall>pth \<in> set tree_paths. faulty_tree pth \<noteq> Status_Failure"
  by (simp_all add: tree_paths_def tree_def faulty_tree_def)

lemma tree_paths_split:
  "tree_paths = [''/r/a'', ''/r/a/x'', ''/r/a/x/g'', ''/r/a/f'', ''/r/b''] @
     ''/r/b/x'' # [''/r/b/x/h'', ''/r/b/x/k'']"
  "tree_paths = [] @ ''/r/a'' #
     [''/r/a/x'', ''/r/a/x/g'', ''/r/a/f'', ''/r/b'', ''/r/b/x'', ''/r/b/x/h'', ''/r/b/x/k'']"
  by (simp_all add: tree_paths_def)

lemma tree_generate_map:
  "generate_map tree tree_paths = Inr
     ([(''a'', \<lparr>num_files = 1, total_size = 10\<rparr>),
       (''b'', \<lparr>num_files = 0, total_size = 0\<rparr>),
       (''x'', \<lparr>num_files = 2, total_size = 15\<rparr>)], [])"
  by code_simp


text \<open>
  What \<open>generate_map\<close> does compute for the directories of a chunk. On a chunk whose
  paths all answer \<^verbatim>\<open>fs::is_directory\<close> it returns one map. Its keys are exactly the
  final name components of the paths of the chunk that are directories: a path that is
  not a directory adds nothing. For a directory whose name is not used again by a later
  directory of the chunk and whose listing completes without an exception, the entry
  holds the number of its immediate children that are regular files and the sum of
  their sizes, both in \<open>std::uintmax_t\<close>.
\<close>

theorem generate_map_entries:
  assumes "\<forall>pth \<in> set chunk. fs pth \<noteq> Status_Failure"
  shows "\<exists>res log. generate_map fs chunk = Inr (res, log) \<and> map_inv res \<and>
    keys_of res = filename ` {pth \<in> set chunk. is_dir (fs pth)} \<and>
    (\<forall>before pth after es.
       chunk = before @ pth # after \<and> fs pth = Directory es \<and>
       name_not_reused fs pth after \<and> \<not> list_ex raises es \<longrightarrow>
       map_of res (filename pth) = Some
         \<lparr>num_files = of_nat (length (file_sizes es)), total_size = sum_list (file_sizes es)\<rparr>)"
proof -
  from generate_map_spec [OF assms] obtain res where
    res: "generate_map fs chunk = Inr (res, failures fs chunk)" "map_inv res"
      "keys_of res = filename ` {pth \<in> set chunk. is_dir (fs pth)}"
      "\<And>name. map_of res name = map_option dir_stats (last_listing fs chunk name)"
    by blast
  have "map_of res (filename pth) = Some
      \<lparr>num_files = of_nat (length (file_sizes es)), total_size = sum_list (file_sizes es)\<rparr>"
    if "chunk = before @ pth # after" "fs pth = Directory es"
      "name_not_reused fs pth after" "\<not> list_ex raises es" for before pth after es
    using that res(4) [of "filename pth"]
    by (simp add: last_listing_here dir_stats_complete)
  with res(1,2,3) show ?thesis
    by (intro exI [of _ res] exI [of _ "failures fs chunk"]) simp
qed

text \<open>
  C5 fails on the code. Every directory of a chunk should add its regular files and
  their bytes to the entry keyed by its final name component. \<open>/r/a/x\<close>, with one file
  of 5 bytes, and \<open>/r/b/x\<close>, with two files of 15 bytes, share the name \<open>x\<close>. In one
  chunk (two hardware threads) lines 40 and 41 reset the entry when \<open>/r/b/x\<close> is
  reached, and the file of \<open>/r/a/x\<close> is lost: \<open>x\<close> has 2 files and 15 bytes. In two
  chunks (three hardware threads) \<open>process_map\<close> adds the two entries: \<open>x\<close> has 3
  files and 20 bytes. The report for one tree depends on the number of threads.
\<close>

theorem generate_map_overwrites_same_name:
  "tree ''/r/a/x'' = Directory [Regular_File 5] \<and>
   tree ''/r/b/x'' = Directory [Regular_File 7, Regular_File 8] \<and>
   filename ''/r/a/x'' = ''x'' \<and> filename ''/r/b/x'' = ''x'' \<and>
   ''/r/a/x'' \<in> set tree_paths \<and> ''/r/b/x'' \<in> set tree_paths \<and>
   generate_map tree tree_paths = Inr
     ([(''a'', \<lparr>num_files = 1, total_size = 10\<rparr>),
       (''b'', \<lparr>num_files = 0, total_size = 0\<rparr>),
       (''x'', \<lparr>num_files = 2, total_size = 15\<rparr>)], []) \<and>
   scan tree 2 tree_paths = Inr
     ([(''a'', \<lparr>num_files = 1, total_size = 10\<rparr>),
       (''b'', \<lparr>num_files = 0, total_size = 0\<rparr>),
       (''x'', \<lparr>num_files = 2, total_size = 15\<rparr>)], 3) \<and>
   scan tree 3 tree_paths = Inr
     ([(''a'', \<lparr>num_files = 1, total_size = 10\<rparr>),
       (''b'', \<lparr>num_files = 0, total_size = 0\<rparr>),
       (''x'', \<lparr>num_files = 3, total_size = 20\<rparr>)], 4)"
  by code_simp

text \<open>The statement about the last directory of a name, on the same chunk.\<close>

theorem generate_map_entries_example:
  "list_all (\<lambda>pth. tree pth \<noteq> Status_Failure) tree_paths \<and>
   tree ''/r/b/x'' = Directory [Regular_File 7, Regular_File 8] \<and>
   generate_map tree tree_paths = Inr
     ([(''a'', \<lparr>num_files = 1, total_size = 10\<rparr>),
       (''b'', \<lparr>num_files = 0, total_size = 0\<rparr>),
       (''x'', \<lparr>num_files = 2, total_size = 15\<rparr>)], []) \<and>
   map_of
     [(''a'', \<lparr>num_files = 1, total_size = 10\<rparr>),
      (''b'', \<lparr>num_files = 0, total_size = 0\<rparr>),
      (''x'', \<lparr>num_files = 2, total_size = 15\<rparr>)] ''x'' =
     Some \<lparr>num_files = 2, total_size = 15\<rparr>"
proof -
  let ?res = "[(''a'', \<lparr>num_files = 1, total_size = 10\<rparr>),
      (''b'', \<lparr>num_files = 0, total_size = 0\<rparr>),
      (''x'', \<lparr>num_files = 2, total_size = 15\<rparr>)]"
  have dir: "tree ''/r/b/x'' = Directory [Regular_File 7, Regular_File 8]"
    by (simp add: tree_def)
  have last: "name_not_reused tree ''/r/b/x'' [''/r/b/x/h'', ''/r/b/x/k'']"
    by (simp add: name_not_reused_def tree_def)
  have name: "filename ''/r/b/x'' = ''x''"
    by (simp add: filename_def)
  obtain res log where all: "generate_map tree tree_paths = Inr (res, log) \<and> map_inv res \<and>
    keys_of res = filename ` {pth \<in> set tree_paths. is_dir (tree pth)} \<and>
    (\<forall>before pth after es.
       tree_paths = before @ pth # after \<and> tree pth = Directory es \<and>
       name_not_reused tree pth after \<and> \<not> list_ex raises es \<longrightarrow>
       map_of res (filename pth) = Some
         \<lparr>num_files = of_nat (length (file_sizes es)), total_size = sum_list (file_sizes es)\<rparr>)"
    using generate_map_entries [OF tree_status(1)] by (elim exE) (rule that)
  note res = all [THEN conjunct1]
  note entry = all [THEN conjunct2, THEN conjunct2, THEN conjunct2, rule_format]
  have "map_of res (filename ''/r/b/x'') = Some
      \<lparr>num_files = of_nat (length (file_sizes [Regular_File 7, Regular_File 8])),
       total_size = sum_list (file_sizes [Regular_File 7, Regular_File 8])\<rparr>"
    by (rule entry [of "[''/r/a'', ''/r/a/x'', ''/r/a/x/g'', ''/r/a/f'', ''/r/b'']" "''/r/b/x''"
          "[''/r/b/x/h'', ''/r/b/x/k'']" "[Regular_File 7, Regular_File 8]"])
      (intro conjI, rule tree_paths_split(1), rule dir, rule last, simp)
  then have x: "map_of res ''x'' = Some \<lparr>num_files = 2, total_size = 15\<rparr>"
    by (simp add: name)
  from res tree_generate_map have "res = ?res"
    by simp
  with x have "map_of ?res ''x'' = Some \<lparr>num_files = 2, total_size = 15\<rparr>"
    by (simp only:)
  with tree_status(1) dir tree_generate_map show ?thesis
    by (simp only: list_all_iff simp_thms)
qed

text \<open>
  C9. When a directory \<open>later\<close> of the chunk has the final name component of a directory
  \<open>earlier\<close> before it, the name already has its entry when \<open>later\<close> is reached, and
  the entry of the returned map is the one computed for \<open>later\<close> from the
  value-initialised struct (0 files, 0 bytes): it is the entry \<open>generate_map\<close> returns
  for \<open>later\<close> alone, so what \<open>earlier\<close> had accumulated is discarded, not summed
  (\<open>later\<close> being the last directory of that name in the chunk).
\<close>

theorem generate_map_last_wins:
  assumes "\<forall>pth \<in> set chunk. fs pth \<noteq> Status_Failure"
    and "chunk = before @ later # after"
    and "earlier \<in> set before" and "fs earlier = Directory es1"
    and "fs later = Directory es2" and "filename earlier = filename later"
    and "name_not_reused fs later after"
  shows "\<exists>res0 log0 res log log1.
    generate_map fs before = Inr (res0, log0) \<and> filename later \<in> keys_of res0 \<and>
    generate_map fs chunk = Inr (res, log) \<and>
    map_of res (filename later) = Some (child_stats es2 zero_info) \<and>
    generate_map fs [later] = Inr ([(filename later, child_stats es2 zero_info)], log1)"
proof -
  have ok: "\<forall>pth \<in> set before. fs pth \<noteq> Status_Failure"
    using assms(1,2) by simp
  from generate_map_spec [OF ok] obtain res0 where
    res0: "generate_map fs before = Inr (res0, failures fs before)"
      "keys_of res0 = filename ` {pth \<in> set before. is_dir (fs pth)}"
    by blast
  have "earlier \<in> {pth \<in> set before. is_dir (fs pth)}"
    using assms(3,4) by simp
  then have "filename earlier \<in> keys_of res0"
    unfolding res0(2) by (rule imageI)
  then have seen: "filename later \<in> keys_of res0"
    by (simp only: assms(6))
  from generate_map_spec [OF assms(1)] obtain res where
    res: "generate_map fs chunk = Inr (res, failures fs chunk)"
      "\<And>name. map_of res name = map_option dir_stats (last_listing fs chunk name)"
    by blast
  have "last_listing fs chunk (filename later) = Some es2"
    unfolding assms(2)
    by (rule last_listing_here [where fs = fs and pth = later, OF assms(5,7)])
  then have entry: "map_of res (filename later) = Some (child_stats es2 zero_info)"
    using res(2) [of "filename later"] by (simp add: dir_stats_def)
  note alone = generate_map_single [where fs = fs and pth = later, OF assms(5), unfolded dir_stats_def]
  show ?thesis
    using res0(1) seen res(1) entry alone by blast
qed

theorem generate_map_last_wins_witness:
  "list_all (\<lambda>pth. tree pth \<noteq> Status_Failure) tree_paths \<and>
   tree ''/r/a/x'' = Directory [Regular_File 5] \<and>
   tree ''/r/b/x'' = Directory [Regular_File 7, Regular_File 8] \<and>
   filename ''/r/a/x'' = filename ''/r/b/x'' \<and>
   name_not_reused tree ''/r/b/x'' [''/r/b/x/h'', ''/r/b/x/k''] \<and>
   map_of
     [(''a'', \<lparr>num_files = 1, total_size = 10\<rparr>),
      (''b'', \<lparr>num_files = 0, total_size = 0\<rparr>),
      (''x'', \<lparr>num_files = 2, total_size = 15\<rparr>)] (filename ''/r/b/x'') =
     Some (child_stats [Regular_File 7, Regular_File 8] zero_info) \<and>
   child_stats [Regular_File 7, Regular_File 8] zero_info = \<lparr>num_files = 2, total_size = 15\<rparr>"
proof -
  let ?res = "[(''a'', \<lparr>num_files = 1, total_size = 10\<rparr>),
      (''b'', \<lparr>num_files = 0, total_size = 0\<rparr>),
      (''x'', \<lparr>num_files = 2, total_size = 15\<rparr>)]"
  let ?before = "[''/r/a'', ''/r/a/x'', ''/r/a/x/g'', ''/r/a/f'', ''/r/b'']"
  have earlier: "''/r/a/x'' \<in> set ?before" "tree ''/r/a/x'' = Directory [Regular_File 5]"
    by (simp_all add: tree_def)
  have later: "tree ''/r/b/x'' = Directory [Regular_File 7, Regular_File 8]"
    by (simp add: tree_def)
  have same: "filename ''/r/a/x'' = filename ''/r/b/x''"
    by (simp add: filename_def)
  have last: "name_not_reused tree ''/r/b/x'' [''/r/b/x/h'', ''/r/b/x/k'']"
    by (simp add: name_not_reused_def tree_def)
  obtain res0 log0 res log log1 where all:
    "generate_map tree ?before = Inr (res0, log0) \<and> filename ''/r/b/x'' \<in> keys_of res0 \<and>
     generate_map tree tree_paths = Inr (res, log) \<and>
     map_of res (filename ''/r/b/x'') = Some (child_stats [Regular_File 7, Regular_File 8] zero_info) \<and>
     generate_map tree [''/r/b/x''] =
       Inr ([(filename ''/r/b/x'', child_stats [Regular_File 7, Regular_File 8] zero_info)], log1)"
    using generate_map_last_wins [where fs = tree and chunk = tree_paths and before = ?before
        and later = "''/r/b/x''" and after = "[''/r/b/x/h'', ''/r/b/x/k'']"
        and earlier = "''/r/a/x''" and ?es1.0 = "[Regular_File 5]"
        and ?es2.0 = "[Regular_File 7, Regular_File 8]",
        OF tree_status(1) tree_paths_split(1) earlier later same last]
    by (elim exE) (rule that)
  from all tree_generate_map have "res = ?res"
    by simp
  with all have "map_of ?res (filename ''/r/b/x'') =
      Some (child_stats [Regular_File 7, Regular_File 8] zero_info)"
    by (simp only:)
  moreover have "child_stats [Regular_File 7, Regular_File 8] zero_info =
      \<lparr>num_files = 2, total_size = 15\<rparr>"
    by (simp add: zero_info_def)
  ultimately show ?thesis
    using tree_status(1) earlier(2) later same last by (simp only: list_all_iff simp_thms)
qed



text \<open>
  What the \<^verbatim>\<open>try\<close> block does achieve. On a chunk whose paths all answer
  \<^verbatim>\<open>fs::is_directory\<close>, whatever exceptions listing the children of its directories,
  or reading the type or size of a child, may raise, \<open>generate_map\<close> returns a map. One
  line is logged for each directory whose scan threw, in chunk order. Scanning goes on
  with the next path of the chunk: every directory of the chunk has its key, also
  those after a failed one. The entry of a directory (the last of its name) is
  computed from the listing of that directory alone, so it keeps what was counted
  before an exception, and for every directory whose own listing completes it is the
  exact number of regular files and the exact sum of their sizes, whichever other
  directories failed.
\<close>

theorem generate_map_fault_isolation:
  assumes "\<forall>pth \<in> set chunk. fs pth \<noteq> Status_Failure"
  shows "\<exists>res log. generate_map fs chunk = Inr (res, log) \<and>
    log = map Filesystem_Error (filter (\<lambda>pth. scan_failed (fs pth)) chunk) \<and>
    keys_of res = filename ` {pth \<in> set chunk. is_dir (fs pth)} \<and>
    (\<forall>before pth after es.
       chunk = before @ pth # after \<and> fs pth = Directory es \<and> name_not_reused fs pth after \<longrightarrow>
       map_of res (filename pth) = Some (child_stats es zero_info) \<and>
       (\<not> list_ex raises es \<longrightarrow>
          child_stats es zero_info =
            \<lparr>num_files = of_nat (length (file_sizes es)), total_size = sum_list (file_sizes es)\<rparr>))"
proof -
  from generate_map_spec [OF assms] obtain res where
    res: "generate_map fs chunk = Inr (res, failures fs chunk)"
      "keys_of res = filename ` {pth \<in> set chunk. is_dir (fs pth)}"
      "\<And>name. map_of res name = map_option dir_stats (last_listing fs chunk name)"
    by blast
  have "map_of res (filename pth) = Some (child_stats es zero_info) \<and>
       (\<not> list_ex raises es \<longrightarrow>
          child_stats es zero_info =
            \<lparr>num_files = of_nat (length (file_sizes es)), total_size = sum_list (file_sizes es)\<rparr>)"
    if "chunk = before @ pth # after" "fs pth = Directory es" "name_not_reused fs pth after"
    for before pth after es
    using that res(3) [of "filename pth"] dir_stats_complete [of es]
    by (simp add: last_listing_here dir_stats_def)
  with res(1,2) show ?thesis
    unfolding failures_def
    by (intro exI [of _ res]
        exI [of _ "map Filesystem_Error (filter (\<lambda>pth. scan_failed (fs pth)) chunk)"]) simp
qed

theorem generate_map_fault_isolation_example:
  "list_all (\<lambda>pth. faulty_tree pth \<noteq> Status_Failure)
     [''/r/a'', ''/r/a/x'', ''/r/a/x/g'', ''/r/a/f'', ''/r/b''] \<and>
   scan_failed (faulty_tree ''/r/a'') \<and>
   faulty_tree ''/r/a/x'' = Directory [Regular_File 5] \<and>
   generate_map faulty_tree [''/r/a'', ''/r/a/x'', ''/r/a/x/g'', ''/r/a/f'', ''/r/b''] = Inr
     ([(''a'', \<lparr>num_files = 0, total_size = 0\<rparr>),
       (''b'', \<lparr>num_files = 0, total_size = 0\<rparr>),
       (''x'', \<lparr>num_files = 1, total_size = 5\<rparr>)],
      [Filesystem_Error ''/r/a'']) \<and>
   map_of
     [(''a'', \<lparr>num_files = 0, total_size = 0\<rparr>),
      (''b'', \<lparr>num_files = 0, total_size = 0\<rparr>),
      (''x'', \<lparr>num_files = 1, total_size = 5\<rparr>)] ''x'' =
     Some \<lparr>num_files = 1, total_size = 5\<rparr>"
proof -
  let ?chunk = "[''/r/a'', ''/r/a/x'', ''/r/a/x/g'', ''/r/a/f'', ''/r/b'']"
  let ?res = "[(''a'', \<lparr>num_files = 0, total_size = 0\<rparr>),
      (''b'', \<lparr>num_files = 0, total_size = 0\<rparr>),
      (''x'', \<lparr>num_files = 1, total_size = 5\<rparr>)]"
  have ok: "\<forall>pth \<in> set ?chunk. faulty_tree pth \<noteq> Status_Failure"
    by (simp add: faulty_tree_def)
  have failed: "scan_failed (faulty_tree ''/r/a'')"
    by (simp add: faulty_tree_def)
  have dir: "faulty_tree ''/r/a/x'' = Directory [Regular_File 5]"
    by (simp add: faulty_tree_def)
  have split: "?chunk = [''/r/a''] @ ''/r/a/x'' # [''/r/a/x/g'', ''/r/a/f'', ''/r/b'']"
    by simp
  have last: "name_not_reused faulty_tree ''/r/a/x'' [''/r/a/x/g'', ''/r/a/f'', ''/r/b'']"
    by (simp add: name_not_reused_def faulty_tree_def filename_def)
  have name: "filename ''/r/a/x'' = ''x''"
    by (simp add: filename_def)
  have computed: "generate_map faulty_tree ?chunk = Inr (?res, [Filesystem_Error ''/r/a''])"
    by code_simp
  obtain res log where all: "generate_map faulty_tree ?chunk = Inr (res, log) \<and>
    log = map Filesystem_Error (filter (\<lambda>pth. scan_failed (faulty_tree pth)) ?chunk) \<and>
    keys_of res = filename ` {pth \<in> set ?chunk. is_dir (faulty_tree pth)} \<and>
    (\<forall>before pth after es.
       ?chunk = before @ pth # after \<and> faulty_tree pth = Directory es \<and>
       name_not_reused faulty_tree pth after \<longrightarrow>
       map_of res (filename pth) = Some (child_stats es zero_info) \<and>
       (\<not> list_ex raises es \<longrightarrow>
          child_stats es zero_info =
            \<lparr>num_files = of_nat (length (file_sizes es)), total_size = sum_list (file_sizes es)\<rparr>))"
    using generate_map_fault_isolation [OF ok] by (elim exE) (rule that)
  note entry = all [THEN conjunct2, THEN conjunct2, THEN conjunct2, rule_format,
      of "[''/r/a'']" "''/r/a/x''" "[''/r/a/x/g'', ''/r/a/f'', ''/r/b'']" "[Regular_File 5]"]
  have "map_of res (filename ''/r/a/x'') = Some (child_stats [Regular_File 5] zero_info) \<and>
       (\<not> list_ex raises [Regular_File 5] \<longrightarrow>
          child_stats [Regular_File 5] zero_info =
            \<lparr>num_files = of_nat (length (file_sizes [Regular_File 5])),
             total_size = sum_list (file_sizes [Regular_File 5])\<rparr>)"
    by (rule entry) (intro conjI, rule split, rule dir, rule last)
  then have "map_of res (filename ''/r/a/x'') = Some \<lparr>num_files = 1, total_size = 5\<rparr>"
    by simp
  moreover from all computed have "res = ?res"
    by simp
  ultimately have "map_of ?res ''x'' = Some \<lparr>num_files = 1, total_size = 5\<rparr>"
    by (simp only: name)
  with ok failed dir computed show ?thesis
    by (simp only: list_all_iff simp_thms)
qed

text \<open>
  C1 fails on the code. \<^verbatim>\<open>fs::is_directory(pth)\<close> of line 38 stands outside the
  \<^verbatim>\<open>try\<close> block of lines 44 to 54. In the chunk \<open>/r/b\<close>, \<open>/r/a\<close>, \<open>/r/a/x\<close> the
  listing of \<open>/r/a\<close> raises: up to there the exception is caught and logged, and the
  map holds \<open>a\<close> and the 1 file and 7 bytes of \<open>b\<close>. Then \<^verbatim>\<open>fs::is_directory\<close> throws
  for \<open>/r/a/x\<close>: the exception leaves \<open>generate_map\<close>, no map is returned, the stats
  of \<open>/r/b\<close> are lost, and \<^verbatim>\<open>future.get()\<close> rethrows it in \<open>main\<close>, which ends the
  whole run.
\<close>

theorem generate_map_status_exception_escapes:
  "broken_tree ''/r/a'' = Directory [Listing_Failure] \<and>
   scan_failed (broken_tree ''/r/a'') \<and>
   broken_tree ''/r/b'' = Directory [Regular_File 7] \<and>
   generate_map broken_tree [''/r/b'', ''/r/a''] = Inr
     ([(''a'', \<lparr>num_files = 0, total_size = 0\<rparr>),
       (''b'', \<lparr>num_files = 1, total_size = 7\<rparr>)],
      [Filesystem_Error ''/r/a'']) \<and>
   generate_map broken_tree [''/r/b'', ''/r/a'', ''/r/a/x''] = Inl (Filesystem_Error ''/r/a/x'') \<and>
   scan broken_tree 2 [''/r/b'', ''/r/a'', ''/r/a/x''] = Inl (Filesystem_Error ''/r/a/x'')"
  by code_simp

section \<open>Properties of the partition\<close>

lemma concat_take_chunks:
  "concat (map (\<lambda>i. take c (drop (i * c) xs)) [0..<k]) = take (k * c) xs"
proof (induction k)
  case 0
  show ?case by simp
next
  case (Suc k)
  have "take (Suc k * c) xs = take (k * c) xs @ take c (drop (k * c) xs)"
    using take_add [of "k * c" c xs] by (simp add: add.commute)
  with Suc show ?case
    by simp
qed

lemma num_futures_unat: "hardw_threads \<noteq> 0 \<Longrightarrow> unat (num_futures hardw_threads) = unat hardw_threads - 1"
  by (simp add: num_futures_def unat_minus_one)

lemma last_index_unat:
  "1 < hardw_threads \<Longrightarrow> unat (num_futures hardw_threads - 1) = unat hardw_threads - 2"
proof -
  assume gt: "1 < hardw_threads"
  then have nz: "hardw_threads \<noteq> 0"
    by auto
  from gt have "1 < unat hardw_threads"
    by (simp add: word_less_nat_alt)
  with nz have "num_futures hardw_threads \<noteq> 0"
    using num_futures_unat [OF nz] by (auto simp: unat_eq_0 [symmetric] simp del: unat_eq_0)
  then have "unat (num_futures hardw_threads - 1) = unat (num_futures hardw_threads) - 1"
    by (rule unat_minus_one)
  with nz show ?thesis
    by (simp add: num_futures_unat)
qed

lemma full_chunks_fit:
  "0 < h \<Longrightarrow> k < h \<Longrightarrow> k * (n div h) \<le> (n::nat)"
proof -
  assume "0 < h" "k < h"
  then have "k * (n div h) \<le> h * (n div h)"
    by (simp add: mult_le_mono1)
  also have "\<dots> \<le> n"
    by simp
  finally show ?thesis .
qed

lemma chunk_at_inner:
  assumes "1 < hardw_threads" and "Suc i < unat hardw_threads - 1"
  shows "chunk_begin paths hardw_threads i = i * max_chunk_sz paths hardw_threads"
    and "chunk_end paths hardw_threads i = Suc i * max_chunk_sz paths hardw_threads"
    and "chunk_at paths hardw_threads i =
      take (max_chunk_sz paths hardw_threads) (drop (i * max_chunk_sz paths hardw_threads) paths)"
proof -
  have "i \<noteq> unat (num_futures hardw_threads - 1)"
    using assms by (simp add: last_index_unat)
  then show "chunk_end paths hardw_threads i = Suc i * max_chunk_sz paths hardw_threads"
    by (simp add: chunk_end_def chunk_begin_def)
  then show "chunk_at paths hardw_threads i =
      take (max_chunk_sz paths hardw_threads) (drop (i * max_chunk_sz paths hardw_threads) paths)"
    by (simp add: chunk_at_def chunk_begin_def)
  show "chunk_begin paths hardw_threads i = i * max_chunk_sz paths hardw_threads"
    by (simp add: chunk_begin_def)
qed

lemma chunk_at_final:
  assumes "1 < hardw_threads"
  shows "chunk_end paths hardw_threads (unat hardw_threads - 2) = length paths"
    and "chunk_at paths hardw_threads (unat hardw_threads - 2) =
      drop ((unat hardw_threads - 2) * max_chunk_sz paths hardw_threads) paths"
proof -
  show "chunk_end paths hardw_threads (unat hardw_threads - 2) = length paths"
    using assms by (simp add: chunk_end_def last_index_unat)
  then show "chunk_at paths hardw_threads (unat hardw_threads - 2) =
      drop ((unat hardw_threads - 2) * max_chunk_sz paths hardw_threads) paths"
    by (simp add: chunk_at_def chunk_begin_def)
qed

lemma plan_chunks_shape:
  assumes "1 < hardw_threads"
  shows "plan_chunks hardw_threads paths = Inr
    (map (\<lambda>i. take (max_chunk_sz paths hardw_threads)
                (drop (i * max_chunk_sz paths hardw_threads) paths))
       [0..<unat hardw_threads - 2] @
     [drop ((unat hardw_threads - 2) * max_chunk_sz paths hardw_threads) paths])"
proof -
  from assms have nz: "hardw_threads \<noteq> 0"
    by auto
  from assms have two: "2 \<le> unat hardw_threads"
    by (simp add: word_less_nat_alt)
  then have suc: "unat hardw_threads - 1 = Suc (unat hardw_threads - 2)"
    by linarith
  have range: "[0..<unat hardw_threads - 1] = [0..<unat hardw_threads - 2] @ [unat hardw_threads - 2]"
    unfolding suc by simp
  have inner: "map (chunk_at paths hardw_threads) [0..<unat hardw_threads - 2] =
      map (\<lambda>i. take (max_chunk_sz paths hardw_threads)
                (drop (i * max_chunk_sz paths hardw_threads) paths)) [0..<unat hardw_threads - 2]"
    using assms by (intro map_cong refl chunk_at_inner(3)) auto
  have "plan_chunks hardw_threads paths =
      Inr (map (chunk_at paths hardw_threads) [0..<unat hardw_threads - 1])"
    using nz by (simp add: plan_chunks_def num_futures_unat)
  also have "map (chunk_at paths hardw_threads) [0..<unat hardw_threads - 1] =
      map (chunk_at paths hardw_threads) [0..<unat hardw_threads - 2] @
      [chunk_at paths hardw_threads (unat hardw_threads - 2)]"
    by (simp only: range map_append list.map)
  finally show ?thesis
    by (simp only: inner chunk_at_final(2) [OF assms])
qed

lemma chunk_bounds:
  assumes "1 < hardw_threads" and "i < unat (num_futures hardw_threads)"
  shows "chunk_begin paths hardw_threads i \<le> chunk_end paths hardw_threads i \<and>
    chunk_end paths hardw_threads i \<le> length paths"
proof -
  from assms(1) have nz: "hardw_threads \<noteq> 0"
    by auto
  then have pos: "0 < unat hardw_threads"
    by (simp add: unat_gt_0)
  from assms(2) nz have i: "i < unat hardw_threads - 1"
    by (simp add: num_futures_unat)
  show ?thesis
  proof (cases "Suc i < unat hardw_threads - 1")
    case True
    then have "Suc i < unat hardw_threads"
      by simp
    from full_chunks_fit [OF pos this, of "length paths"] chunk_at_inner(1,2) [OF assms(1) True, of paths]
    show ?thesis
      by (simp add: max_chunk_sz_def)
  next
    case False
    with i have last: "i = unat hardw_threads - 2"
      by linarith
    have "unat hardw_threads - 2 < unat hardw_threads"
      using pos by simp
    from full_chunks_fit [OF pos this, of "length paths"] chunk_at_final(1) [OF assms(1), of paths]
    show ?thesis
      by (simp add: last chunk_begin_def max_chunk_sz_def)
  qed
qed

text \<open>
  C3. With a worker count \<open>num_futures = hardw_threads - 1\<close> of at least 1, that is
  with \<open>hardw_threads > 1\<close>, the planning step makes \<open>num_futures\<close> chunks whose
  concatenation is the path list. Chunk \<open>i\<close> is the segment of the path list from
  \<open>chunk_begin i\<close> up to \<open>chunk_end i\<close>, both within the list; the first segment
  starts at 0, each one ends where the next one starts, and the last one ends at the
  end of the list: contiguous, in order, no gap and no overlap. Every chunk but the
  last has exactly \<open>max_chunk_sz\<close> elements, so those sizes differ by nothing, and the
  last chunk holds all that remains.
\<close>

theorem plan_chunks_partition:
  fixes paths :: "'a list" and hardw_threads :: "32 word"
  assumes "1 < hardw_threads"
  shows "\<exists>chunks. plan_chunks hardw_threads paths = Inr chunks \<and>
    length chunks = unat (num_futures hardw_threads) \<and>
    concat chunks = paths \<and>
    chunk_begin paths hardw_threads 0 = 0 \<and>
    (\<forall>i. Suc i < length chunks \<longrightarrow>
       chunk_end paths hardw_threads i = chunk_begin paths hardw_threads (Suc i)) \<and>
    chunk_end paths hardw_threads (length chunks - 1) = length paths \<and>
    (\<forall>i. i < length chunks \<longrightarrow>
       chunk_begin paths hardw_threads i \<le> chunk_end paths hardw_threads i \<and>
       chunk_end paths hardw_threads i \<le> length paths \<and>
       chunks ! i =
         take (chunk_end paths hardw_threads i - chunk_begin paths hardw_threads i)
           (drop (chunk_begin paths hardw_threads i) paths)) \<and>
    (\<forall>i. Suc i < length chunks \<longrightarrow> length (chunks ! i) = max_chunk_sz paths hardw_threads) \<and>
    length (last chunks) =
      length paths - (length chunks - 1) * max_chunk_sz paths hardw_threads"
proof -
  define W where "W = unat (num_futures hardw_threads)"
  define c where "c = max_chunk_sz paths hardw_threads"
  define chunks where "chunks = map (chunk_at paths hardw_threads) [0..<W]"
  from assms have nz: "hardw_threads \<noteq> 0"
    by auto
  from assms have two: "2 \<le> unat hardw_threads"
    by (simp add: word_less_nat_alt)
  have W: "W = unat hardw_threads - 1"
    using nz by (simp add: W_def num_futures_unat)
  have last_index: "W - 1 = unat hardw_threads - 2" and li: "W - Suc 0 = unat hardw_threads - 2"
    using W by simp_all
  have plan: "plan_chunks hardw_threads paths = Inr chunks"
    using nz by (simp add: plan_chunks_def chunks_def W_def)
  have len: "length chunks = W"
    by (simp add: chunks_def)
  have shape: "chunks = map (\<lambda>i. take c (drop (i * c) paths)) [0..<W - 1] @ [drop ((W - 1) * c) paths]"
    using plan plan_chunks_shape [OF assms, of paths] unfolding c_def last_index by simp
  have concat: "concat chunks = paths"
    by (simp add: shape concat_take_chunks)
  have first: "chunk_begin paths hardw_threads 0 = 0"
    by (simp add: chunk_begin_def)
  have "next": "chunk_end paths hardw_threads i = chunk_begin paths hardw_threads (Suc i)"
    if "Suc i < length chunks" for i
    using that chunk_at_inner(2) [OF assms, of i paths] by (simp add: len W chunk_begin_def)
  have final: "chunk_end paths hardw_threads (length chunks - 1) = length paths"
    using chunk_at_final(1) [OF assms, of paths] by (simp add: len li)
  have segment: "chunk_begin paths hardw_threads i \<le> chunk_end paths hardw_threads i \<and>
       chunk_end paths hardw_threads i \<le> length paths \<and>
       chunks ! i =
         take (chunk_end paths hardw_threads i - chunk_begin paths hardw_threads i)
           (drop (chunk_begin paths hardw_threads i) paths)"
    if "i < length chunks" for i
    using that chunk_bounds [OF assms, of i paths]
    by (simp add: len W_def chunks_def chunk_at_def)
  have sizes: "length (chunks ! i) = max_chunk_sz paths hardw_threads"
    if "Suc i < length chunks" for i
  proof -
    from that have inner: "Suc i < unat hardw_threads - 1"
      by (simp add: len W)
    then have "Suc i < unat hardw_threads" and "0 < unat hardw_threads"
      by simp_all
    from full_chunks_fit [OF this(2) this(1), of "length paths"]
    have "i * c + c \<le> length paths"
      by (simp add: c_def max_chunk_sz_def)
    moreover have "chunks ! i = take c (drop (i * c) paths)"
      using that chunk_at_inner(3) [OF assms inner, of paths] by (simp add: chunks_def len c_def)
    ultimately show ?thesis
      by (simp add: c_def)
  qed
  have rest: "length (last chunks) = length paths - (length chunks - 1) * max_chunk_sz paths hardw_threads"
    by (simp add: shape c_def)
  from plan len concat first "next" final segment sizes rest show ?thesis
    unfolding W_def by (intro exI [of _ chunks]) simp
qed

lemma tree_plan:
  "plan_chunks 3 tree_paths = Inr
     [[''/r/a'', ''/r/a/x''],
      [''/r/a/x/g'', ''/r/a/f'', ''/r/b'', ''/r/b/x'', ''/r/b/x/h'', ''/r/b/x/k'']]"
  by code_simp

theorem plan_chunks_partition_witness:
  "(1 :: 32 word) < 3 \<and>
   plan_chunks 3 tree_paths = Inr
     [[''/r/a'', ''/r/a/x''],
      [''/r/a/x/g'', ''/r/a/f'', ''/r/b'', ''/r/b/x'', ''/r/b/x/h'', ''/r/b/x/k'']] \<and>
   concat
     [[''/r/a'', ''/r/a/x''],
      [''/r/a/x/g'', ''/r/a/f'', ''/r/b'', ''/r/b/x'', ''/r/b/x/h'', ''/r/b/x/k'']] = tree_paths \<and>
   length
     [[''/r/a'', ''/r/a/x''],
      [''/r/a/x/g'', ''/r/a/f'', ''/r/b'', ''/r/b/x'', ''/r/b/x/h'', ''/r/b/x/k'']] =
     unat (num_futures 3)"
proof -
  let ?chunks = "[[''/r/a'', ''/r/a/x''],
      [''/r/a/x/g'', ''/r/a/f'', ''/r/b'', ''/r/b/x'', ''/r/b/x/h'', ''/r/b/x/k'']]"
  have three: "(1 :: 32 word) < 3"
    by simp
  obtain chunks where all: "plan_chunks 3 tree_paths = Inr chunks \<and>
    length chunks = unat (num_futures 3) \<and> concat chunks = tree_paths"
    using plan_chunks_partition [OF three, of tree_paths] by (elim exE conjE) (rule that, simp)
  from all tree_plan have "chunks = ?chunks"
    by simp
  with all have "concat ?chunks = tree_paths" "length ?chunks = unat (num_futures 3)"
    by (simp_all only:)
  with three tree_plan show ?thesis
    by (simp only: simp_thms)
qed


text \<open>
  With \<open>hardw_threads = 0\<close>, the value \<^verbatim>\<open>std::thread::hardware_concurrency()\<close> returns
  when it cannot tell, line 92 divides by zero.
\<close>

lemma plan_chunks_zero_threads: "plan_chunks 0 paths = Inl Division_By_Zero"
  by (simp add: plan_chunks_def)




section \<open>Properties of the progress counter\<close>

lemma card_keys_le: "card (keys_of p) \<le> length p"
  unfolding keys_of_def by (rule order_trans [OF card_image_le card_length]) simp

lemma card_all_keys_le: "card (\<Union>(keys_of ` set ps)) \<le> (\<Sum>p\<leftarrow>ps. length p)"
proof (induction ps)
  case Nil
  show ?case by simp
next
  case (Cons p ps)
  have "card (keys_of p \<union> \<Union>(keys_of ` set ps)) \<le> card (keys_of p) + card (\<Union>(keys_of ` set ps))"
    by (rule card_Un_le)
  with Cons card_keys_le [of p] show ?case
    by simp
qed

lemma card_all_keys_eq_iff:
  "\<forall>p \<in> set ps. map_inv p \<Longrightarrow>
   card (\<Union>(keys_of ` set ps)) = (\<Sum>p\<leftarrow>ps. length p) \<longleftrightarrow> disjoint_keys ps"
proof (induction ps)
  case Nil
  show ?case by simp
next
  case (Cons p ps)
  let ?A = "keys_of p" and ?U = "\<Union>(keys_of ` set ps)"
  have fin: "finite ?A" "finite ?U"
    by (simp_all add: finite_keys_of)
  have A: "card ?A = length p"
    using Cons.prems length_card_keys [of p] by simp
  have sum: "card (?A \<union> ?U) + card (?A \<inter> ?U) = length p + card ?U"
    using card_Un_Int [OF fin] A by simp
  have le: "card ?U \<le> (\<Sum>p\<leftarrow>ps. length p)"
    by (rule card_all_keys_le)
  have IH: "card ?U = (\<Sum>p\<leftarrow>ps. length p) \<longleftrightarrow> disjoint_keys ps"
    using Cons by simp
  have inter: "card (?A \<inter> ?U) = 0 \<longleftrightarrow> ?A \<inter> ?U = {}"
    using fin by simp
  have "card (?A \<union> ?U) = length p + (\<Sum>p\<leftarrow>ps. length p) \<longleftrightarrow>
      card (?A \<inter> ?U) = 0 \<and> card ?U = (\<Sum>p\<leftarrow>ps. length p)"
    using sum le by linarith
  then show ?case
    using IH inter by simp
qed

lemma merged_key_count:
  assumes "\<forall>p \<in> set ps. map_inv p"
  shows "length (fst (merge_all ps ([], c))) = card (\<Union>(keys_of ` set ps))"
proof -
  have "map_inv (fst (merge_all ps ([], c)))"
    by (rule merge_all_inv) (simp add: map_inv_Nil)
  then have "length (fst (merge_all ps ([], c))) = card (keys_of (fst (merge_all ps ([], c))))"
    by (rule length_card_keys)
  then show ?thesis
    by (simp add: keys_of_merge_all keys_of_Nil)
qed

text \<open>
  C6, as amended. After all partial maps have been merged, from the empty global map
  and the counter 0, the progress counter is the sum of the key counts of the partial
  maps (as a \<open>std::uintmax_t\<close>). The key count of the global map is the number of
  distinct names among them; it is at most that sum, and equal to it exactly when no
  directory name occurs in two partial maps.
\<close>

theorem progress_counter_counts_entries:
  assumes "\<forall>p \<in> set partials. map_inv p"
  shows "snd (merge_all partials ([], 0)) = of_nat (\<Sum>p\<leftarrow>partials. length p) \<and>
    length (fst (merge_all partials ([], 0))) = card (\<Union>(keys_of ` set partials)) \<and>
    length (fst (merge_all partials ([], 0))) \<le> (\<Sum>p\<leftarrow>partials. length p) \<and>
    (length (fst (merge_all partials ([], 0))) = (\<Sum>p\<leftarrow>partials. length p) \<longleftrightarrow>
       disjoint_keys partials)"
  using assms merged_key_count [OF assms, of 0] card_all_keys_le [of partials]
    card_all_keys_eq_iff [OF assms]
  by (simp add: merge_all_counter)

text \<open>
  C6 as stated fails: a directory name can occur in two partial maps. With three
  hardware threads the tree under \<open>/r\<close> is cut into two chunks that each hold a
  directory named \<open>x\<close>; the counter ends at 4 while the global map has 3 keys.
\<close>

theorem progress_counter_counts_entries_counterexample:
  "partial_maps tree 3 tree_paths = Inr [partial_one, partial_two] \<and>
   ''x'' \<in> keys_of partial_one \<and> ''x'' \<in> keys_of partial_two \<and>
   scan tree 3 tree_paths = Inr
     ([(''a'', \<lparr>num_files = 1, total_size = 10\<rparr>),
       (''b'', \<lparr>num_files = 0, total_size = 0\<rparr>),
       (''x'', \<lparr>num_files = 3, total_size = 20\<rparr>)], 4) \<and>
   (4 :: 64 word) \<noteq> of_nat (length
     [(''a'', \<lparr>num_files = 1, total_size = 10\<rparr>),
      (''b'', \<lparr>num_files = 0, total_size = 0\<rparr>),
      (''x'', \<lparr>num_files = 3, total_size = 20\<rparr>)])"
  by code_simp

theorem progress_counter_counts_entries_witness:
  "map_inv partial_one \<and> map_inv partial_two \<and>
   snd (merge_all [partial_one, partial_two] ([], 0)) = 4 \<and>
   length (fst (merge_all [partial_one, partial_two] ([], 0))) = 3 \<and>
   \<not> disjoint_keys [partial_one, partial_two]"
proof -
  have inv: "\<forall>p \<in> set [partial_one, partial_two]. map_inv p"
    using example_partials_inv by simp
  have keys: "keys_of partial_one = {''a'', ''x''}" "keys_of partial_two = {''b'', ''x''}"
    by (auto simp: keys_of_def partial_one_def partial_two_def)
  have lens: "length partial_one = 2" "length partial_two = 2"
    by (simp_all add: partial_one_def partial_two_def)
  have union: "\<Union>(keys_of ` set [partial_one, partial_two]) = {''a'', ''b'', ''x''}"
    by (auto simp: keys)
  have shared: "\<not> disjoint_keys [partial_one, partial_two]"
    by (simp add: keys)
  note counted = progress_counter_counts_entries [OF inv]
  from counted have "snd (merge_all [partial_one, partial_two] ([], 0)) = 4"
    by (simp add: lens)
  moreover from counted have "length (fst (merge_all [partial_one, partial_two] ([], 0))) =
      card (\<Union>(keys_of ` set [partial_one, partial_two]))"
    by (elim conjE)
  then have "length (fst (merge_all [partial_one, partial_two] ([], 0))) = 3"
    unfolding union by simp
  ultimately show ?thesis
    using example_partials_inv shared by (simp only: simp_thms)
qed

section \<open>Properties of the report\<close>

text \<open>
  C8. The report prints, in the traversal order of the global map, one line for each
  entry whose \<open>num_files\<close> is not 0, with the name, file count and byte count of that
  entry, and no other line: an entry with \<open>num_files = 0\<close> stays in the map and gets
  no line.
\<close>

theorem print_directories_nonzero:
  "print_directories m =
     map (\<lambda>e. (fst e, num_files (snd e), total_size (snd e)))
       (filter (\<lambda>e. num_files (snd e) \<noteq> 0) m)"
  by (induction m rule: print_directories.induct) (simp_all add: word_gt_0)

theorem print_directories_nonzero_witness:
  "print_directories report_example = [(''a'', 3, 60)] \<and>
   map_of report_example ''b'' = Some \<lparr>num_files = 0, total_size = 0\<rparr>"
  using print_directories_nonzero [of report_example]
  by (simp add: report_example_def)

text \<open>
  C7 fails on the code. The accumulator of \<^verbatim>\<open>std::accumulate\<close> has the type of its
  initial value \<open>0\<close>, an \<open>int\<close>, although the second lambda takes its sum as
  \<^verbatim>\<open>std::uintmax_t\<close>. For a directory with one file of 2147483648 bytes the global
  map holds the exact size, and the summary line prints the total -2147483648.
\<close>

theorem summary_line_truncates_total_bytes:
  "scan big_tree 2 [''/r/a'', ''/r/a/f''] =
     Inr ([(''a'', \<lparr>num_files = 1, total_size = 2147483648\<rparr>)], 1) \<and>
   summary_line [(''a'', \<lparr>num_files = 1, total_size = 2147483648\<rparr>)] 1 =
     (1, - 2147483648, 1)"
  by code_simp

text \<open>
  In general both totals of the summary line are the low 32 bits of the 64-bit sums over
  all entries of the global map, read as a signed \<open>int\<close>.
\<close>

lemma take_bit_low_add:
  "take_bit 32 (a + b) = take_bit 32 (take_bit 64 a + take_bit 64 b)" for a b :: int
proof -
  have "take_bit 32 (take_bit 64 a + take_bit 64 b) =
      take_bit 32 (take_bit 32 (take_bit 64 a) + take_bit 32 (take_bit 64 b))"
    by (simp only: take_bit_add)
  also have "\<dots> = take_bit 32 (take_bit 32 a + take_bit 32 b)"
    by simp
  also have "\<dots> = take_bit 32 (a + b)"
    by (simp only: take_bit_add)
  finally show ?thesis
    by simp
qed

lemma down_add: "(ucast (a + b :: 64 word) :: 32 word) = ucast a + ucast b"
  by transfer (simp add: take_bit_low_add [symmetric])

lemma scast_down: "(ucast (scast (w :: 32 word) :: 64 word) :: 32 word) = w"
  apply (rule bit_word_eqI)
  apply (auto simp add: bit_simps)
  done

lemma accumulate_step:
  "(ucast ((scast (ucast s :: 32 word) :: 64 word) + x) :: 32 word) = ucast (s + x)"
  for s x :: "64 word"
  by (simp add: down_add scast_down)

lemma accumulate_int_eq:
  "foldl (\<lambda>sum entry. ucast ((scast sum :: 64 word) + field (snd entry))) (ucast s) m =
     (ucast (s + sum_list (map (\<lambda>e. field (snd e)) m)) :: 32 word)"
  by (induction m arbitrary: s) (simp_all add: accumulate_step add.assoc)

lemma accumulate_int_sum:
  "accumulate_int field m = ucast (sum_list (map (\<lambda>e. field (snd e)) m))"
  using accumulate_int_eq [of field 0 m] by (simp add: accumulate_int_def)

end
